theory Spec2Isabelle
  imports Main
begin

section \<open>Values, requests and the network\<close>

text \<open>
  The program is dynamically typed: the caller's filters, the decoded response bodies,
  the incidents and the \<open>next\<close> link are all Python objects. The objects that can
  occur here are the ones a JSON document decodes to (and the ones the command line
  produces): \<open>None\<close>, booleans, integers, floats, strings, lists and dictionaries with
  string keys. A dictionary is an association list in which the first binding of a key
  counts. The program never computes with a float, it only tests one for truth, so a
  float is kept as sign, mantissa and exponent. A string is a list of 8-bit characters;
  the program compares strings and tests them for emptiness, and no property below
  depends on the characters of one.
\<close>

datatype pyfloat = Finite bool nat int | Infinite bool | NaN

datatype pyval =
    PNone
  | PBool bool
  | PInt int
  | PFloat pyfloat
  | PStr string
  | PList "pyval list"
  | PDict "(string \<times> pyval) list"

text \<open>Python's truth test, as used by \<open>if x:\<close> and \<open>if not x:\<close>.\<close>

fun truthy :: "pyval \<Rightarrow> bool" where
  "truthy PNone = False"
| "truthy (PBool b) = b"
| "truthy (PInt i) = (i \<noteq> 0)"
| "truthy (PFloat (Finite s m e)) = (m \<noteq> 0)"
| "truthy (PFloat (Infinite s)) = True"
| "truthy (PFloat NaN) = True"
| "truthy (PStr s) = (s \<noteq> [])"
| "truthy (PList xs) = (xs \<noteq> [])"
| "truthy (PDict kvs) = (kvs \<noteq> [])"

text \<open>
  The exceptions the program can end with. \<open>HttpError\<close> stands for the exceptions of
  the HTTP layer: \<open>requests.get\<close> raising because the request could not be completed
  (no status code), and the \<open>HTTPError\<close> of \<open>raise_for_status\<close> (with the status
  code). \<open>DecodeError\<close> is the \<open>JSONDecodeError\<close> of \<open>response.json()\<close>;
  \<open>ValueError\<close> and \<open>RecursionError\<close> are the other exceptions its decoder raises.
  \<open>AttributeError\<close> and \<open>TypeError\<close> come from reading a page.
\<close>

datatype error =
    HttpError "int option"
  | DecodeError
  | ValueError
  | RecursionError
  | AttributeError
  | TypeError

text \<open>
  One GET as \<open>requests.get\<close> receives it: the URL, the headers, and the \<open>params\<close>
  argument, \<open>None\<close> when the call passes none. The parameters are in the insertion
  order of the dictionary.
\<close>

record request =
  req_url :: pyval
  req_headers :: "(string \<times> string) list"
  req_params :: "(string \<times> pyval) list option"

text \<open>
  What \<open>response.json()\<close> does with the body of a response. The decoder belongs to
  the library, and whether the body is valid JSON does not decide what it does: it
  returns the decoded object or rejects the body with \<open>JSONDecodeError\<close>, but it also
  raises a plain \<open>ValueError\<close> on an integer literal longer than the digit limit of the
  interpreter and \<open>RecursionError\<close> on a body nested too deep, both of them valid JSON,
  and it accepts the literals \<open>NaN\<close> and \<open>Infinity\<close>, which are not. So a response
  carries its status code and the outcome of the decoder itself.
\<close>

datatype decoding =
    Returns pyval
  | RaisesJSONDecodeError
  | RaisesValueError
  | RaisesRecursionError

datatype response = Response (status_code: int) (json_result: decoding)

text \<open>
  The network is not part of the program. It is a parameter: it answers a request, given
  the requests sent before it, with a response, or with \<open>None\<close> when the request
  cannot be completed. The state of the world is the list of the requests sent so far.
\<close>

type_synonym transport = "request list \<Rightarrow> request \<Rightarrow> response option"

section \<open>The page fetcher\<close>

definition BASE_URL :: string where
  "BASE_URL = ''https://uptime.betterstack.com/api/v2/incidents''"

text \<open>\<open>d.get(key, default)\<close>: an object that is not a dictionary has no \<open>get\<close>.\<close>

fun py_get :: "pyval \<Rightarrow> string \<Rightarrow> pyval \<Rightarrow> error + pyval" where
  "py_get (PDict kvs) key dflt = (case map_of kvs key of None \<Rightarrow> Inr dflt | Some v \<Rightarrow> Inr v)"
| "py_get _ key dflt = Inl AttributeError"

text \<open>
  The elements \<open>list.extend\<close> takes from its argument: those of a list, the characters
  of a string, the keys of a dictionary; any other object is not iterable.
\<close>

fun py_iter :: "pyval \<Rightarrow> error + pyval list" where
  "py_iter (PList xs) = Inr xs"
| "py_iter (PStr s) = Inr (map (\<lambda>c. PStr [c]) s)"
| "py_iter (PDict kvs) = Inr (map PStr (rev (remdups (rev (map fst kvs)))))"
| "py_iter _ = Inl TypeError"

text \<open>Lines 32 to 35: the headers of every request.\<close>

definition request_headers :: "string \<Rightarrow> (string \<times> string) list" where
  "request_headers api_key =
     [(''Authorization'', ''Bearer '' @ api_key), (''Content-Type'', ''application/json'')]"

text \<open>
  Lines 28 to 57 of \<open>fetch_incidents_page\<close>: the request it sends. A false \<open>url\<close>
  becomes the base endpoint; each parameter is entered if it is true; the parameters
  are attached if the URL is the base endpoint, and no \<open>params\<close> are passed otherwise.
\<close>

definition page_request ::
  "string \<Rightarrow> pyval \<Rightarrow> pyval \<Rightarrow> pyval \<Rightarrow> pyval \<Rightarrow> pyval \<Rightarrow> pyval \<Rightarrow> pyval \<Rightarrow> request" where
  "page_request api_key url page per_page from_date to_date monitor_id heartbeat_id =
    (let url = (if \<not> truthy url then PStr BASE_URL else url);
         headers = request_headers api_key;
         params = (if truthy page then [(''page'', page)] else [])
                @ (if truthy per_page then [(''per_page'', per_page)] else [])
                @ (if truthy from_date then [(''from'', from_date)] else [])
                @ (if truthy to_date then [(''to'', to_date)] else [])
                @ (if truthy monitor_id then [(''monitor_id'', monitor_id)] else [])
                @ (if truthy heartbeat_id then [(''heartbeat_id'', heartbeat_id)] else [])
     in if url = PStr BASE_URL
        then \<lparr>req_url = url, req_headers = headers, req_params = Some params\<rparr>
        else \<lparr>req_url = url, req_headers = headers, req_params = None\<rparr>)"

text \<open>
  \<open>Response.raise_for_status\<close> of the requests library raises \<open>HTTPError\<close> for the
  status codes 400 to 599 and returns for every other one.
\<close>

definition raise_for_status :: "response \<Rightarrow> error + unit" where
  "raise_for_status r =
    (if 400 \<le> status_code r \<and> status_code r < 600
     then Inl (HttpError (Some (status_code r))) else Inr ())"

text \<open>
  Line 60, \<open>response.json()\<close>: the program returns what the decoder returns and
  catches none of its exceptions.
\<close>

definition response_json :: "response \<Rightarrow> error + pyval" where
  "response_json r =
    (case json_result r of
       Returns v \<Rightarrow> Inr v
     | RaisesJSONDecodeError \<Rightarrow> Inl DecodeError
     | RaisesValueError \<Rightarrow> Inl ValueError
     | RaisesRecursionError \<Rightarrow> Inl RecursionError)"

text \<open>
  Lines 55 to 60: send the request, which the world records, then
  \<open>raise_for_status\<close>, then \<open>json\<close>.
\<close>

definition http_get_json ::
  "transport \<Rightarrow> request list \<Rightarrow> request \<Rightarrow> (error + pyval) \<times> request list" where
  "http_get_json net log rq =
    (case net log rq of
       None \<Rightarrow> (Inl (HttpError None), log @ [rq])
     | Some r \<Rightarrow>
         (case raise_for_status r of
            Inl e \<Rightarrow> (Inl e, log @ [rq])
          | Inr u \<Rightarrow> (response_json r, log @ [rq])))"

definition fetch_incidents_page ::
  "transport \<Rightarrow> string \<Rightarrow> pyval \<Rightarrow> pyval \<Rightarrow> pyval \<Rightarrow> pyval \<Rightarrow> pyval \<Rightarrow> pyval \<Rightarrow> pyval
     \<Rightarrow> request list \<Rightarrow> (error + pyval) \<times> request list" where
  "fetch_incidents_page net api_key url page per_page from_date to_date monitor_id
       heartbeat_id log =
     http_get_json net log
       (page_request api_key url page per_page from_date to_date monitor_id heartbeat_id)"

section \<open>The traversal\<close>

text \<open>
  Lines 88 and 89: what a page adds to \<open>all_incidents\<close>, the elements of its
  \<open>data\<close>, or of \<open>[]\<close> when it has none. Lines 91 and 92: its \<open>next\<close> link,
  read in \<open>pagination\<close>, or in \<open>{}\<close> when it has none.
\<close>

definition page_items :: "pyval \<Rightarrow> error + pyval list" where
  "page_items current_page_data =
    (case py_get current_page_data ''data'' (PList []) of
       Inl e \<Rightarrow> Inl e
     | Inr incidents_page \<Rightarrow> py_iter incidents_page)"

definition next_link :: "pyval \<Rightarrow> error + pyval" where
  "next_link current_page_data =
    (case py_get current_page_data ''pagination'' (PDict []) of
       Inl e \<Rightarrow> Inl e
     | Inr pagination \<Rightarrow> py_get pagination ''next'' PNone)"

text \<open>
  The \<open>while True\<close> loop of \<open>fetch_all_incidents\<close>, lines 87 to 103. It has no bound:
  it is a partial function, and \<open>None\<close> is the traversal that never ends. A result is
  the exception or the list returned, with the requests sent. The page is read in the
  order of the source (\<open>data\<close>, \<open>extend\<close>, \<open>pagination\<close>, \<open>next\<close>), so the
  first exception is the one of the source; an exception leaves nothing of the accumulator.
\<close>

partial_function (option) fetch_loop ::
  "transport \<Rightarrow> string \<Rightarrow> pyval list \<Rightarrow> pyval \<Rightarrow> request list
     \<Rightarrow> ((error + pyval list) \<times> request list) option" where
  "fetch_loop net api_key all_incidents current_page_data log =
    (case page_items current_page_data of
       Inl e \<Rightarrow> Some (Inl e, log)
     | Inr incidents_page \<Rightarrow>
         (case next_link current_page_data of
            Inl e \<Rightarrow> Some (Inl e, log)
          | Inr next_url \<Rightarrow>
              if \<not> truthy next_url then Some (Inr (all_incidents @ incidents_page), log)
              else
                (case fetch_incidents_page net api_key next_url (PInt 1) (PInt 50)
                        PNone PNone PNone PNone log of
                   (Inl e, log') \<Rightarrow> Some (Inl e, log')
                 | (Inr page, log') \<Rightarrow>
                     fetch_loop net api_key (all_incidents @ incidents_page) page log')))"

declare fetch_loop.simps [code]

definition fetch_all_incidents ::
  "transport \<Rightarrow> string \<Rightarrow> pyval \<Rightarrow> pyval \<Rightarrow> pyval \<Rightarrow> pyval \<Rightarrow> pyval
     \<Rightarrow> ((error + pyval list) \<times> request list) option" where
  "fetch_all_incidents net api_key from_date to_date monitor_id heartbeat_id per_page =
    (case fetch_incidents_page net api_key PNone (PInt 1) per_page from_date to_date
            monitor_id heartbeat_id [] of
       (Inl e, log) \<Rightarrow> Some (Inl e, log)
     | (Inr page, log) \<Rightarrow> fetch_loop net api_key [] page log)"

section \<open>Describing a traversal\<close>

text \<open>
  Lines 98 to 101: the request sent for a \<open>next\<close> link, \<open>fetch_incidents_page\<close>
  called with the link and its own defaults.
\<close>

definition next_request :: "string \<Rightarrow> pyval \<Rightarrow> request" where
  "next_request api_key next_url =
     page_request api_key next_url (PInt 1) (PInt 50) PNone PNone PNone PNone"

text \<open>
  A page continues the traversal when the loop can read it and its \<open>next\<close> link is
  true; it stops the traversal when the loop can read it and the link is false.
\<close>

definition continues :: "pyval \<Rightarrow> bool" where
  "continues p =
    (case page_items p of
       Inl e \<Rightarrow> False
     | Inr items \<Rightarrow> (case next_link p of Inl e \<Rightarrow> False | Inr u \<Rightarrow> truthy u))"

definition stops :: "pyval \<Rightarrow> bool" where
  "stops p =
    (case page_items p of
       Inl e \<Rightarrow> False
     | Inr items \<Rightarrow> (case next_link p of Inl e \<Rightarrow> False | Inr u \<Rightarrow> \<not> truthy u))"

definition items_of :: "pyval \<Rightarrow> pyval list" where
  "items_of p = (case page_items p of Inl e \<Rightarrow> [] | Inr items \<Rightarrow> items)"

definition next_of :: "pyval \<Rightarrow> pyval" where
  "next_of p = (case next_link p of Inl e \<Rightarrow> PNone | Inr u \<Rightarrow> u)"

text \<open>
  \<open>answers net key log rq rs\<close>: the fetches of a traversal that sends \<open>rq\<close> next, after
  the requests \<open>log\<close>, receive the results \<open>rs\<close> in this order. Every result but the
  last is a page that continues, and the fetch after it is the one for its \<open>next\<close>
  link.
\<close>

fun answers ::
  "transport \<Rightarrow> string \<Rightarrow> request list \<Rightarrow> request \<Rightarrow> (error + pyval) list \<Rightarrow> bool" where
  "answers net key log rq [] = True"
| "answers net key log rq (r # rs) =
     (fst (http_get_json net log rq) = r \<and>
      (if rs = [] then True
       else (case r of
               Inl e \<Rightarrow> False
             | Inr p \<Rightarrow> continues p \<and>
                 answers net key (log @ [rq]) (next_request key (next_of p)) rs)))"

text \<open>The traversal from a request on: the fetch, then the loop on its page.\<close>

definition fetch_from ::
  "transport \<Rightarrow> string \<Rightarrow> pyval list \<Rightarrow> request \<Rightarrow> request list
     \<Rightarrow> ((error + pyval list) \<times> request list) option" where
  "fetch_from net key acc rq log =
    (case http_get_json net log rq of
       (Inl e, log') \<Rightarrow> Some (Inl e, log')
     | (Inr p, log') \<Rightarrow> fetch_loop net key acc p log')"

section \<open>Example servers\<close>

text \<open>
  The example of the specification: the first page holds the incidents 1 and 2 and
  links to \<open>U2\<close>, whose page holds the incident 3 and has a null link.
\<close>

definition page_one :: pyval where
  "page_one = PDict [(''data'', PList [PDict [(''id'', PInt 1)], PDict [(''id'', PInt 2)]]),
                     (''pagination'', PDict [(''next'', PStr ''U2'')])]"

definition page_two :: pyval where
  "page_two = PDict [(''data'', PList [PDict [(''id'', PInt 3)]]),
                     (''pagination'', PDict [(''next'', PNone)])]"

definition two_page_server :: transport where
  "two_page_server log rq =
    (if req_url rq = PStr BASE_URL then Some (Response 200 (Returns page_one))
     else if req_url rq = PStr ''U2'' then Some (Response 200 (Returns page_two))
     else Some (Response 404 RaisesJSONDecodeError))"

text \<open>A server whose second page fails with status 500.\<close>

definition failing_server :: transport where
  "failing_server log rq =
    (if req_url rq = PStr BASE_URL then Some (Response 200 (Returns page_one))
     else Some (Response 500 RaisesJSONDecodeError))"

text \<open>A server whose every page links on: the traversal is sent back to \<open>U2\<close> for ever.\<close>

definition looping_server :: transport where
  "looping_server log rq = Some (Response 200 (Returns page_one))"

text \<open>A server whose first page links to the base endpoint itself.\<close>

definition page_back :: pyval where
  "page_back = PDict [(''data'', PList [PDict [(''id'', PInt 1)]]),
                      (''pagination'', PDict [(''next'', PStr BASE_URL)])]"

definition base_link_server :: transport where
  "base_link_server log rq =
    (if log = [] then Some (Response 200 (Returns page_back))
     else Some (Response 200 (Returns page_two)))"

text \<open>A server with one page, and one that sends it with status 300.\<close>

definition single_page_server :: transport where
  "single_page_server log rq = Some (Response 200 (Returns page_two))"

definition multiple_choices_server :: transport where
  "multiple_choices_server log rq = Some (Response 300 (Returns page_two))"

text \<open>
  A server whose body is one integer literal of 5000 digits: valid JSON, on which the
  decoder raises \<open>ValueError\<close>.
\<close>

definition long_integer_server :: transport where
  "long_integer_server log rq = Some (Response 200 RaisesValueError)"

text \<open>A server with no incidents, and one whose body is an array.\<close>

definition empty_server :: transport where
  "empty_server log rq = Some (Response 200 (Returns (PDict [])))"

definition array_server :: transport where
  "array_server log rq = Some (Response 200 (Returns (PList [PDict [(''id'', PInt 1)]])))"

section \<open>The loop, step by step\<close>

lemmas eval_defs = http_get_json_def page_request_def raise_for_status_def response_json_def
  continues_def stops_def items_of_def next_of_def page_items_def next_link_def next_request_def
  BASE_URL_def

lemma snd_http_get_json: "snd (http_get_json net log rq) = log @ [rq]"
  by (simp add: http_get_json_def split: option.splits sum.splits)

lemma http_get_json_eq:
  "http_get_json net log rq = (fst (http_get_json net log rq), log @ [rq])"
  by (simp add: prod_eq_iff snd_http_get_json)

lemma fetch_from_Inl:
  "fst (http_get_json net log rq) = Inl e
     \<Longrightarrow> fetch_from net key acc rq log = Some (Inl e, log @ [rq])"
  by (subst fetch_from_def, subst http_get_json_eq) simp

lemma fetch_from_Inr:
  "fst (http_get_json net log rq) = Inr p
     \<Longrightarrow> fetch_from net key acc rq log = fetch_loop net key acc p (log @ [rq])"
  by (subst fetch_from_def, subst http_get_json_eq) simp

lemma fetch_all_incidents_from:
  "fetch_all_incidents net key fd td mi hi pp =
     fetch_from net key [] (page_request key PNone (PInt 1) pp fd td mi hi) []"
  by (simp add: fetch_all_incidents_def fetch_from_def fetch_incidents_page_def)

lemma fetch_loop_stop:
  "stops p \<Longrightarrow> fetch_loop net key acc p log = Some (Inr (acc @ items_of p), log)"
  by (subst fetch_loop.simps) (simp add: stops_def items_of_def split: sum.splits)

lemma fetch_loop_continue:
  "continues p \<Longrightarrow> fetch_loop net key acc p log =
     fetch_from net key (acc @ items_of p) (next_request key (next_of p)) log"
  by (subst fetch_loop.simps)
    (simp add: continues_def items_of_def next_of_def fetch_from_def
      fetch_incidents_page_def next_request_def split: sum.splits)

lemma fetch_loop_unreadable:
  "page_items p = Inl e \<Longrightarrow> fetch_loop net key acc p log = Some (Inl e, log)"
  by (subst fetch_loop.simps) simp

text \<open>
  Along results that answer the traversal, the loop goes from page to page, adds the
  items of each page to the accumulator and sends one request for each result.
\<close>

lemma fetch_from_answers:
  "answers net key log rq (map Inr ps @ [r]) \<Longrightarrow>
     \<exists>log'. length log' = length log + length ps + 1 \<and>
       fetch_from net key acc rq log =
         (case r of
            Inl e \<Rightarrow> Some (Inl e, log')
          | Inr q \<Rightarrow> fetch_loop net key (acc @ concat (map items_of ps)) q log')"
proof (induction ps arbitrary: acc rq log)
  case Nil
  then show ?case
    by (intro exI[of _ "log @ [rq]"]) (cases r; simp add: fetch_from_Inl fetch_from_Inr)
next
  case (Cons p ps)
  from Cons.prems have first: "fst (http_get_json net log rq) = Inr p"
    and cont: "continues p"
    and rest: "answers net key (log @ [rq]) (next_request key (next_of p)) (map Inr ps @ [r])"
    by simp_all
  from Cons.IH[OF rest, of "acc @ items_of p"] obtain log' where
    len: "length log' = length (log @ [rq]) + length ps + 1" and
    eq: "fetch_from net key (acc @ items_of p) (next_request key (next_of p)) (log @ [rq]) =
         (case r of
            Inl e \<Rightarrow> Some (Inl e, log')
          | Inr q \<Rightarrow> fetch_loop net key ((acc @ items_of p) @ concat (map items_of ps)) q log')"
    by blast
  have "fetch_from net key acc rq log = fetch_loop net key acc p (log @ [rq])"
    using first by (rule fetch_from_Inr)
  also have "\<dots> =
      fetch_from net key (acc @ items_of p) (next_request key (next_of p)) (log @ [rq])"
    using cont by (rule fetch_loop_continue)
  finally show ?case
    using len eq by (intro exI[of _ log']) (cases r; simp)
qed

text \<open>
  A traversal that returns a list has read finitely many pages, the last of which stops.
\<close>

lemma fetch_loop_returns:
  assumes "fetch_loop net key acc p log = Some y"
  shows "\<forall>res log'. y = (Inr res, log') \<longrightarrow>
           (\<exists>qs. answers net key log (next_request key (next_of p)) (map Inr qs) \<and>
                 (if qs = [] then stops p else continues p \<and> stops (last qs)))"
  using assms
proof (induction net key acc p log y rule: fetch_loop.raw_induct[rotated 1, consumes 1, case_names step])
  case (step f net key acc p log y)
  show ?case
  proof (intro allI impI)
    fix res log' assume y: "y = (Inr res, log')"
    from step(2) y obtain items where items: "page_items p = Inr items"
      by (cases "page_items p") auto
    from step(2) y items obtain u where u: "next_link p = Inr u"
      by (cases "next_link p") auto
    show "\<exists>qs. answers net key log (next_request key (next_of p)) (map Inr qs) \<and>
                 (if qs = [] then stops p else continues p \<and> stops (last qs))"
    proof (cases "truthy u")
      case False
      with items u have "stops p" by (simp add: stops_def)
      then show ?thesis by (intro exI[of _ "[]"]) simp
    next
      case True
      with items u have c: "continues p" by (simp add: continues_def)
      let ?rq = "next_request key (next_of p)"
      have nx: "next_of p = u" using u by (simp add: next_of_def)
      have fp: "fetch_incidents_page net key u (PInt 1) (PInt 50) PNone PNone PNone PNone log
                 = (fst (http_get_json net log ?rq), log @ [?rq])"
        unfolding fetch_incidents_page_def next_request_def nx
        by (rule http_get_json_eq)
      from step(2) y items u True fp obtain q where
        q: "fst (http_get_json net log ?rq) = Inr q" and
        f: "f net key (acc @ items) q (log @ [?rq]) = Some y"
        by (cases "fst (http_get_json net log ?rq)") auto
      from step(1)[OF f] y obtain qs where
        a: "answers net key (log @ [?rq]) (next_request key (next_of q)) (map Inr qs)" and
        s: "if qs = [] then stops q else continues q \<and> stops (last qs)"
        by blast
      have "answers net key log ?rq (map Inr (q # qs))"
        using q a s by (cases qs) auto
      moreover have "stops (last (q # qs))" using s by (cases qs) auto
      ultimately have "answers net key log ?rq (map Inr (q # qs)) \<and>
          (if q # qs = [] then stops p else continues p \<and> stops (last (q # qs)))"
        using c by (simp del: answers.simps)
      then show ?thesis by blast
    qed
  qed
qed

text \<open>
  Against a server whose every answer is a page that continues, the loop returns nothing.
\<close>

lemma fetch_loop_diverges:
  assumes "fetch_loop net key acc p log = Some y"
    and "\<forall>log rq. \<exists>p. fst (http_get_json net log rq) = Inr p \<and> continues p"
    and "continues p"
  shows False
  using assms
proof (induction net key acc p log y rule: fetch_loop.raw_induct[rotated 1, consumes 1, case_names step])
  case (step f net key acc p log y)
  let ?rq = "next_request key (next_of p)"
  from step(3) obtain q where q: "fst (http_get_json net log ?rq) = Inr q" and c: "continues q"
    by blast
  from step(4) obtain items u where items: "page_items p = Inr items" and u: "next_link p = Inr u"
    and t: "truthy u"
    by (auto simp: continues_def split: sum.splits)
  have nx: "next_of p = u" using u by (simp add: next_of_def)
  have fp: "fetch_incidents_page net key u (PInt 1) (PInt 50) PNone PNone PNone PNone log
                 = (Inr q, log @ [?rq])"
    unfolding fetch_incidents_page_def next_request_def nx
    using q http_get_json_eq[of net log "next_request key u"]
    by (simp add: next_request_def nx)
  from step(2) items u t fp have "f net key (acc @ items) q (log @ [?rq]) = Some y"
    by simp
  from step(1)[OF this step(3) c] show ?case .
qed

text \<open>The request the loop sends for a \<open>next\<close> link.\<close>

lemma fetch_loop_next:
  "page_items p = Inr items \<Longrightarrow> next_link p = Inr u \<Longrightarrow> truthy u \<Longrightarrow>
     fetch_loop net key acc p log = fetch_from net key (acc @ items) (next_request key u) log"
  using fetch_loop_continue[of p net key acc log]
  by (simp add: continues_def items_of_def next_of_def)

lemma next_request_other:
  "truthy u \<Longrightarrow> u \<noteq> PStr BASE_URL \<Longrightarrow>
     next_request key u = \<lparr>req_url = u, req_headers = request_headers key, req_params = None\<rparr>"
  by (simp add: next_request_def page_request_def)

lemma next_request_base:
  "next_request key (PStr BASE_URL) =
     \<lparr>req_url = PStr BASE_URL, req_headers = request_headers key,
      req_params = Some [(''page'', PInt 1), (''per_page'', PInt 50)]\<rparr>"
  by (simp add: next_request_def page_request_def)

text \<open>A page without a \<open>next\<close> link, or with a null or empty one.\<close>

lemma next_link_absent_or_empty:
  assumes "map_of kvs ''pagination'' = None \<or>
       (\<exists>pg. map_of kvs ''pagination'' = Some (PDict pg) \<and>
          (map_of pg ''next'' = None \<or> map_of pg ''next'' = Some PNone \<or>
           map_of pg ''next'' = Some (PStr [])))"
  shows "\<exists>u. next_link (PDict kvs) = Inr u \<and> \<not> truthy u"
  using assms by (auto simp add: next_link_def)

section \<open>Properties of the traversal\<close>

text \<open>
  C1. When the server answers the traversal with the pages \<open>ps\<close>, each page but the last
  linking to the next one and the last one with a false link (null), \<open>fetch_all_incidents\<close>
  returns the incidents of the pages, concatenated in the order of the pages and, within a
  page, in the order of its \<open>data\<close>, after as many fetches as there are pages.
\<close>

theorem fetch_all_incidents_concat:
  assumes "ps \<noteq> []"
    and "answers net key [] (page_request key PNone (PInt 1) per_page from_date to_date
           monitor_id heartbeat_id) (map Inr ps)"
    and "stops (last ps)"
  shows "\<exists>log. fetch_all_incidents net key from_date to_date monitor_id heartbeat_id per_page
             = Some (Inr (concat (map items_of ps)), log) \<and> length log = length ps"
proof -
  from assms(1) have ps: "ps = butlast ps @ [last ps]" by simp
  then have "map Inr ps = map Inr (butlast ps) @ [Inr (last ps) :: error + pyval]"
    by (metis list.simps(8,9) map_append)
  with assms(2) fetch_from_answers[of net key "[]" _ "butlast ps" "Inr (last ps)" "[]"]
  obtain log where len: "length log = length (butlast ps) + 1"
    and eq: "fetch_from net key [] (page_request key PNone (PInt 1) per_page from_date to_date
           monitor_id heartbeat_id) [] =
        fetch_loop net key (concat (map items_of (butlast ps))) (last ps) log"
    by auto
  have "concat (map items_of ps) = concat (map items_of (butlast ps)) @ items_of (last ps)"
    by (subst ps) simp
  with eq len assms(1,3) show ?thesis
    by (simp add: fetch_all_incidents_from fetch_loop_stop)
qed

theorem fetch_all_incidents_concat_witness:
  "[page_one, page_two] \<noteq> [] \<and>
   answers two_page_server ''k'' [] (page_request ''k'' PNone (PInt 1) (PInt 2) PNone PNone
      (PInt 42) PNone) (map Inr [page_one, page_two]) \<and>
   stops (last [page_one, page_two]) \<and>
   (\<exists>log. fetch_all_incidents two_page_server ''k'' PNone PNone (PInt 42) PNone (PInt 2)
       = Some (Inr [PDict [(''id'', PInt 1)], PDict [(''id'', PInt 2)], PDict [(''id'', PInt 3)]],
               log) \<and> length log = 2)"
proof -
  have a: "answers two_page_server ''k'' [] (page_request ''k'' PNone (PInt 1) (PInt 2) PNone
      PNone (PInt 42) PNone) (map Inr [page_one, page_two])"
    by (simp add: eval_defs two_page_server_def page_one_def page_two_def)
  have s: "stops (last [page_one, page_two])"
    by (simp add: eval_defs page_two_def)
  have n: "[page_one, page_two] \<noteq> []" by simp
  have "\<exists>log. fetch_all_incidents two_page_server ''k'' PNone PNone (PInt 42) PNone (PInt 2)
       = Some (Inr [PDict [(''id'', PInt 1)], PDict [(''id'', PInt 2)], PDict [(''id'', PInt 3)]],
               log) \<and> length log = 2"
    using fetch_all_incidents_concat[OF n a s]
    by (simp add: items_of_def page_items_def page_one_def page_two_def eval_nat_numeral)
  with n a s show ?thesis by blast
qed

text \<open>
  C2. \<open>fetch_all_incidents\<close> returns a list exactly when the server answers the
  traversal with finitely many pages of which the last has a false \<open>next\<close> link
  (absent, null or empty). Nothing else bounds the loop: against a server that answers
  every request with a page whose link is true, the traversal never ends.
\<close>

theorem fetch_all_incidents_termination:
  "((\<exists>res log. fetch_all_incidents net key from_date to_date monitor_id heartbeat_id per_page
        = Some (Inr res, log)) \<longleftrightarrow>
    (\<exists>ps. ps \<noteq> [] \<and>
       answers net key [] (page_request key PNone (PInt 1) per_page from_date to_date
         monitor_id heartbeat_id) (map Inr ps) \<and> stops (last ps)))
   \<and> ((\<forall>log rq. \<exists>p. fst (http_get_json net log rq) = Inr p \<and> continues p) \<longrightarrow>
        fetch_all_incidents net key from_date to_date monitor_id heartbeat_id per_page = None)"
proof (intro conjI iffI impI)
  let ?rq = "page_request key PNone (PInt 1) per_page from_date to_date monitor_id heartbeat_id"
  assume "\<exists>res log. fetch_all_incidents net key from_date to_date monitor_id heartbeat_id per_page
        = Some (Inr res, log)"
  then obtain res log where r: "fetch_from net key [] ?rq [] = Some (Inr res, log)"
    by (auto simp: fetch_all_incidents_from)
  then obtain p where p: "fst (http_get_json net [] ?rq) = Inr p"
    by (cases "fst (http_get_json net [] ?rq)") (auto simp: fetch_from_Inl)
  with r have "fetch_loop net key [] p ([] @ [?rq]) = Some (Inr res, log)"
    by (simp add: fetch_from_Inr)
  from fetch_loop_returns[OF this] obtain qs where
    a: "answers net key ([] @ [?rq]) (next_request key (next_of p)) (map Inr qs)" and
    s: "if qs = [] then stops p else continues p \<and> stops (last qs)"
    by blast
  have "answers net key [] ?rq (map Inr (p # qs))"
    using p a s by (cases qs) auto
  moreover have "stops (last (p # qs))" using s by (cases qs) auto
  moreover have "p # qs \<noteq> []" by simp
  ultimately show "\<exists>ps. ps \<noteq> [] \<and> answers net key [] ?rq (map Inr ps) \<and> stops (last ps)"
    by blast
next
  let ?rq = "page_request key PNone (PInt 1) per_page from_date to_date monitor_id heartbeat_id"
  assume "\<exists>ps. ps \<noteq> [] \<and> answers net key [] ?rq (map Inr ps) \<and> stops (last ps)"
  then obtain ps where n: "ps \<noteq> []" and a: "answers net key [] ?rq (map Inr ps)"
    and s: "stops (last ps)" by blast
  from n have ps: "map Inr ps = map Inr (butlast ps) @ [Inr (last ps) :: error + pyval]"
    by (metis append_butlast_last_id list.simps(8,9) map_append)
  from a fetch_from_answers[of net key "[]" ?rq "butlast ps" "Inr (last ps)" "[]"] ps
  obtain log where "fetch_from net key [] ?rq [] =
        fetch_loop net key (concat (map items_of (butlast ps))) (last ps) log"
    by auto
  with s show "\<exists>res log. fetch_all_incidents net key from_date to_date monitor_id heartbeat_id
      per_page = Some (Inr res, log)"
    by (simp add: fetch_all_incidents_from fetch_loop_stop)
next
  let ?rq = "page_request key PNone (PInt 1) per_page from_date to_date monitor_id heartbeat_id"
  assume srv: "\<forall>log rq. \<exists>p. fst (http_get_json net log rq) = Inr p \<and> continues p"
  then obtain p where p: "fst (http_get_json net [] ?rq) = Inr p" and c: "continues p"
    by blast
  show "fetch_all_incidents net key from_date to_date monitor_id heartbeat_id per_page = None"
  proof (rule ccontr)
    assume "fetch_all_incidents net key from_date to_date monitor_id heartbeat_id per_page \<noteq> None"
    then obtain y where "fetch_loop net key [] p ([] @ [?rq]) = Some y"
      using p by (auto simp: fetch_all_incidents_from fetch_from_Inr)
    from fetch_loop_diverges[OF this srv c] show False .
  qed
qed

theorem fetch_all_incidents_termination_witness:
  "(\<forall>log rq. \<exists>p. fst (http_get_json looping_server log rq) = Inr p \<and> continues p) \<and>
   fetch_all_incidents looping_server ''k'' PNone PNone PNone PNone (PInt 50) = None \<and>
   (\<exists>res log. fetch_all_incidents two_page_server ''k'' PNone PNone PNone PNone (PInt 50)
        = Some (Inr res, log))"
proof -
  have l: "\<forall>log rq. \<exists>p. fst (http_get_json looping_server log rq) = Inr p \<and> continues p"
    by (simp add: eval_defs looping_server_def page_one_def)
  have a: "[page_one, page_two] \<noteq> [] \<and>
      answers two_page_server ''k'' [] (page_request ''k'' PNone (PInt 1) (PInt 50) PNone
      PNone PNone PNone) (map Inr [page_one, page_two]) \<and> stops (last [page_one, page_two])"
    by (simp add: eval_defs two_page_server_def page_one_def page_two_def)
  note t = fetch_all_incidents_termination[of _ "''k''" PNone PNone PNone PNone "PInt 50"]
  from t[of looping_server] l
  have "fetch_all_incidents looping_server ''k'' PNone PNone PNone PNone (PInt 50) = None"
    by blast
  moreover from t[of two_page_server] a
  have "\<exists>res log. fetch_all_incidents two_page_server ''k'' PNone PNone PNone PNone (PInt 50)
        = Some (Inr res, log)"
    by blast
  ultimately show ?thesis using l by blast
qed

text \<open>
  C3, as amended. When the loop follows a \<open>next\<close> link, the fetch it makes is the GET of
  that link as it stands, with the headers. No filter of the caller is attached. There are
  no \<open>params\<close> at all unless the link is the base endpoint itself, and then they are
  \<open>page\<close> = 1 and \<open>per_page\<close> = 50.
\<close>

theorem continuation_fetch_params:
  assumes "page_items p = Inr items" and "next_link p = Inr u" and "truthy u"
  shows "fetch_loop net key acc p log =
           fetch_from net key (acc @ items)
             \<lparr>req_url = u, req_headers = request_headers key,
              req_params = (if u = PStr BASE_URL
                            then Some [(''page'', PInt 1), (''per_page'', PInt 50)]
                            else None)\<rparr> log"
  using fetch_loop_next[OF assms] next_request_other[OF assms(3)] next_request_base
  by (cases "u = PStr BASE_URL") simp_all

theorem continuation_fetch_params_witness:
  "page_items page_one = Inr [PDict [(''id'', PInt 1)], PDict [(''id'', PInt 2)]] \<and>
   next_link page_one = Inr (PStr ''U2'') \<and> truthy (PStr ''U2'') \<and>
   fetch_loop two_page_server ''k'' [] page_one [] =
     fetch_from two_page_server ''k'' ([] @ [PDict [(''id'', PInt 1)], PDict [(''id'', PInt 2)]])
       \<lparr>req_url = PStr ''U2'', req_headers = request_headers ''k'', req_params = None\<rparr> []"
proof -
  have i: "page_items page_one = Inr [PDict [(''id'', PInt 1)], PDict [(''id'', PInt 2)]]"
    by (simp add: page_items_def page_one_def)
  have n: "next_link page_one = Inr (PStr ''U2'')"
    by (simp add: next_link_def page_one_def)
  have t: "truthy (PStr ''U2'')" by simp
  have "fetch_loop two_page_server ''k'' [] page_one [] =
     fetch_from two_page_server ''k'' ([] @ [PDict [(''id'', PInt 1)], PDict [(''id'', PInt 2)]])
       \<lparr>req_url = PStr ''U2'', req_headers = request_headers ''k'', req_params = None\<rparr> []"
    using continuation_fetch_params[OF i n t, of two_page_server "''k''" "[]" "[]"]
    by (simp add: BASE_URL_def)
  with i n t show ?thesis by blast
qed

text \<open>
  C3 as stated fails for a link equal to the base endpoint: the second fetch of this
  traversal follows the link of the first page and carries \<open>page\<close> and \<open>per_page\<close>.
\<close>

theorem continuation_fetch_with_params_counterexample:
  "fetch_all_incidents base_link_server ''k'' (PStr ''2024-01-01'') PNone (PInt 42) PNone (PInt 2)
     = Some (Inr [PDict [(''id'', PInt 1)], PDict [(''id'', PInt 3)]],
         [\<lparr>req_url = PStr BASE_URL, req_headers = request_headers ''k'',
           req_params = Some [(''page'', PInt 1), (''per_page'', PInt 2),
                              (''from'', PStr ''2024-01-01''), (''monitor_id'', PInt 42)]\<rparr>,
          \<lparr>req_url = PStr BASE_URL, req_headers = request_headers ''k'',
           req_params = Some [(''page'', PInt 1), (''per_page'', PInt 50)]\<rparr>])"
  by (simp add: fetch_all_incidents_def fetch_incidents_page_def fetch_loop.simps eval_defs
      base_link_server_def page_back_def page_two_def)

text \<open>
  C4. When the pages \<open>ps\<close> have been fetched and the next fetch fails with \<open>e\<close> (the
  first fetch when \<open>ps\<close> is empty), \<open>fetch_all_incidents\<close> ends with \<open>e\<close> and with
  nothing else: the incidents of \<open>ps\<close> are not returned, and the failed fetch is the
  last one sent.
\<close>

theorem fetch_failure_propagates:
  assumes "answers net key [] (page_request key PNone (PInt 1) per_page from_date to_date
           monitor_id heartbeat_id) (map Inr ps @ [Inl e])"
  shows "\<exists>log. fetch_all_incidents net key from_date to_date monitor_id heartbeat_id per_page
             = Some (Inl e, log) \<and> length log = length ps + 1"
  using fetch_from_answers[OF assms, of "[]"] by (auto simp add: fetch_all_incidents_from)

theorem fetch_failure_propagates_witness:
  "answers failing_server ''k'' [] (page_request ''k'' PNone (PInt 1) (PInt 2) PNone PNone
      (PInt 42) PNone) (map Inr [page_one] @ [Inl (HttpError (Some 500))]) \<and>
   (\<exists>log. fetch_all_incidents failing_server ''k'' PNone PNone (PInt 42) PNone (PInt 2)
       = Some (Inl (HttpError (Some 500)), log) \<and> length log = length [page_one] + 1)"
proof -
  have a: "answers failing_server ''k'' [] (page_request ''k'' PNone (PInt 1) (PInt 2) PNone
      PNone (PInt 42) PNone) (map Inr [page_one] @ [Inl (HttpError (Some 500))])"
    by (simp add: eval_defs failing_server_def page_one_def)
  from fetch_failure_propagates[OF a] a show ?thesis by blast
qed

text \<open>
  C5, as amended. \<open>fetch_incidents_page\<close> fails with \<open>HttpError\<close> exactly when the
  request cannot be completed or the status is one of 400 to 599, whatever the body is.
  For every other status its outcome is the outcome of \<open>response.json()\<close>, unchanged: it
  fails with \<open>DecodeError\<close> exactly when the decoder rejects the body, it returns a value
  exactly when the decoder returns that value, and the other exceptions of the decoder,
  \<open>ValueError\<close> and \<open>RecursionError\<close>, pass through as they are. \<open>HttpError\<close> and
  \<open>DecodeError\<close> are distinct.
\<close>

theorem fetch_incidents_page_errors:
  "((\<exists>c. fst (fetch_incidents_page net key url page per_page from_date to_date monitor_id
               heartbeat_id log) = Inl (HttpError c)) \<longleftrightarrow>
      (net log (page_request key url page per_page from_date to_date monitor_id heartbeat_id)
         = None \<or>
       (\<exists>s d. net log (page_request key url page per_page from_date to_date monitor_id
                  heartbeat_id) = Some (Response s d) \<and> 400 \<le> s \<and> s < 600)))
   \<and> (fst (fetch_incidents_page net key url page per_page from_date to_date monitor_id
               heartbeat_id log) = Inl DecodeError \<longleftrightarrow>
      (\<exists>s. net log (page_request key url page per_page from_date to_date monitor_id
                  heartbeat_id) = Some (Response s RaisesJSONDecodeError) \<and>
           (s < 400 \<or> 600 \<le> s)))
   \<and> (fst (fetch_incidents_page net key url page per_page from_date to_date monitor_id
               heartbeat_id log) = Inr v \<longleftrightarrow>
      (\<exists>s. net log (page_request key url page per_page from_date to_date monitor_id
                  heartbeat_id) = Some (Response s (Returns v)) \<and> (s < 400 \<or> 600 \<le> s)))
   \<and> (fst (fetch_incidents_page net key url page per_page from_date to_date monitor_id
               heartbeat_id log) = Inl ValueError \<longleftrightarrow>
      (\<exists>s. net log (page_request key url page per_page from_date to_date monitor_id
                  heartbeat_id) = Some (Response s RaisesValueError) \<and>
           (s < 400 \<or> 600 \<le> s)))
   \<and> (fst (fetch_incidents_page net key url page per_page from_date to_date monitor_id
               heartbeat_id log) = Inl RecursionError \<longleftrightarrow>
      (\<exists>s. net log (page_request key url page per_page from_date to_date monitor_id
                  heartbeat_id) = Some (Response s RaisesRecursionError) \<and>
           (s < 400 \<or> 600 \<le> s)))
   \<and> HttpError c' \<noteq> DecodeError"
proof -
  let ?rq = "page_request key url page per_page from_date to_date monitor_id heartbeat_id"
  show ?thesis
  proof (cases "net log ?rq")
    case None
    then show ?thesis
      by (simp add: fetch_incidents_page_def http_get_json_def)
  next
    case (Some r)
    obtain s d where r: "r = Response s d" by (cases r)
    show ?thesis
    proof (cases "400 \<le> s \<and> s < 600")
      case True
      with Some r show ?thesis
        by (simp add: fetch_incidents_page_def http_get_json_def raise_for_status_def)
    next
      case False
      with Some r show ?thesis
        by (cases d)
          (auto simp add: fetch_incidents_page_def http_get_json_def raise_for_status_def
            response_json_def)
    qed
  qed
qed

theorem fetch_incidents_page_errors_witness:
  "fst (fetch_incidents_page long_integer_server ''k'' PNone (PInt 1) (PInt 50) PNone PNone
         PNone PNone []) = Inl ValueError \<and>
   fst (fetch_incidents_page failing_server ''k'' (PStr ''U2'') (PInt 1) (PInt 50) PNone PNone
         PNone PNone []) \<noteq> Inl DecodeError"
proof -
  have "long_integer_server [] (page_request ''k'' PNone (PInt 1) (PInt 50) PNone PNone
          PNone PNone) = Some (Response 200 RaisesValueError) \<and> ((200::int) < 400 \<or> (600::int) \<le> 200)"
    by (simp add: long_integer_server_def)
  moreover have "\<not> (\<exists>s. failing_server [] (page_request ''k'' (PStr ''U2'') (PInt 1) (PInt 50)
          PNone PNone PNone PNone) = Some (Response s RaisesJSONDecodeError) \<and>
          (s < 400 \<or> 600 \<le> s))"
    by (simp add: failing_server_def page_request_def BASE_URL_def)
  ultimately show ?thesis
    using fetch_incidents_page_errors[of long_integer_server "''k''" PNone "PInt 1" "PInt 50"
        PNone PNone PNone PNone "[]"]
      fetch_incidents_page_errors[of failing_server "''k''" "PStr ''U2''" "PInt 1" "PInt 50"
        PNone PNone PNone PNone "[]"]
    by blast
qed

text \<open>
  C5 as stated fails for a status that is neither a success nor an error of
  \<open>raise_for_status\<close>: a response with status 300 and a JSON body is returned as a page.
\<close>

theorem redirect_status_counterexample:
  "fst (fetch_incidents_page multiple_choices_server ''k'' PNone (PInt 1) (PInt 50) PNone PNone
         PNone PNone []) = Inr page_two"
  by (simp add: fetch_incidents_page_def http_get_json_def raise_for_status_def
      response_json_def multiple_choices_server_def)

text \<open>
  C6, as amended. The first request of a traversal goes to the base endpoint with
  \<open>page\<close> = 1; \<open>per_page\<close> and each filter are parameters of it exactly when their
  value is true in Python's sense (supplied, and neither 0 nor the empty string), and then
  with the caller's value; there is no other parameter.
\<close>

theorem first_request_params:
  "\<exists>params.
     fetch_all_incidents net key from_date to_date monitor_id heartbeat_id per_page =
       fetch_from net key []
         \<lparr>req_url = PStr BASE_URL, req_headers = request_headers key,
          req_params = Some params\<rparr> [] \<and>
     distinct (map fst params) \<and>
     set (map fst params) \<subseteq>
       {''page'', ''per_page'', ''from'', ''to'', ''monitor_id'', ''heartbeat_id''} \<and>
     map_of params ''page'' = Some (PInt 1) \<and>
     map_of params ''per_page'' = (if truthy per_page then Some per_page else None) \<and>
     map_of params ''from'' = (if truthy from_date then Some from_date else None) \<and>
     map_of params ''to'' = (if truthy to_date then Some to_date else None) \<and>
     map_of params ''monitor_id'' = (if truthy monitor_id then Some monitor_id else None) \<and>
     map_of params ''heartbeat_id'' = (if truthy heartbeat_id then Some heartbeat_id else None)"
proof -
  let ?params = "[(''page'', PInt 1)]
      @ (if truthy per_page then [(''per_page'', per_page)] else [])
      @ (if truthy from_date then [(''from'', from_date)] else [])
      @ (if truthy to_date then [(''to'', to_date)] else [])
      @ (if truthy monitor_id then [(''monitor_id'', monitor_id)] else [])
      @ (if truthy heartbeat_id then [(''heartbeat_id'', heartbeat_id)] else [])"
  have "fetch_all_incidents net key from_date to_date monitor_id heartbeat_id per_page =
       fetch_from net key []
         \<lparr>req_url = PStr BASE_URL, req_headers = request_headers key,
          req_params = Some ?params\<rparr> []"
    by (simp add: fetch_all_incidents_from page_request_def)
  then show ?thesis
    by (intro exI[of _ ?params] conjI) auto
qed

text \<open>
  C6 as stated fails for a supplied value that is false: the monitor id 0 is not sent.
\<close>

theorem zero_monitor_id_counterexample:
  "fetch_all_incidents single_page_server ''k'' PNone PNone (PInt 0) PNone (PInt 2)
     = Some (Inr [PDict [(''id'', PInt 3)]],
         [\<lparr>req_url = PStr BASE_URL, req_headers = request_headers ''k'',
           req_params = Some [(''page'', PInt 1), (''per_page'', PInt 2)]\<rparr>])"
  by (simp add: fetch_all_incidents_def fetch_incidents_page_def fetch_loop.simps eval_defs
      single_page_server_def page_two_def)

text \<open>
  C7. On a page whose \<open>pagination\<close> is absent, or whose \<open>next\<close> is absent, null or the
  empty string, the loop ends at once: it returns the accumulator with the items of the
  page, and the requests sent are the ones sent before.
\<close>

theorem no_next_link_ends_traversal:
  assumes "page_items (PDict kvs) = Inr items"
    and "map_of kvs ''pagination'' = None \<or>
       (\<exists>pg. map_of kvs ''pagination'' = Some (PDict pg) \<and>
          (map_of pg ''next'' = None \<or> map_of pg ''next'' = Some PNone \<or>
           map_of pg ''next'' = Some (PStr [])))"
  shows "fetch_loop net key acc (PDict kvs) log = Some (Inr (acc @ items), log)"
proof -
  from next_link_absent_or_empty[OF assms(2)] obtain u
    where "next_link (PDict kvs) = Inr u" and "\<not> truthy u" by blast
  with assms(1) have "stops (PDict kvs)" and "items_of (PDict kvs) = items"
    by (simp_all add: stops_def items_of_def)
  then show ?thesis by (simp add: fetch_loop_stop)
qed

theorem no_next_link_ends_traversal_witness:
  "page_items (PDict [(''data'', PList [PDict [(''id'', PInt 3)]])]) = Inr [PDict [(''id'', PInt 3)]] \<and>
   map_of [(''data'', PList [PDict [(''id'', PInt 3)]])] ''pagination'' = None \<and>
   fetch_loop two_page_server ''k'' [PDict [(''id'', PInt 1)]]
       (PDict [(''data'', PList [PDict [(''id'', PInt 3)]])]) []
     = Some (Inr [PDict [(''id'', PInt 1)], PDict [(''id'', PInt 3)]], [])"
proof -
  have i: "page_items (PDict [(''data'', PList [PDict [(''id'', PInt 3)]])])
            = Inr [PDict [(''id'', PInt 3)]]"
    by (simp add: page_items_def)
  have n: "map_of [(''data'', PList [PDict [(''id'', PInt 3)]])] ''pagination'' = None"
    by simp
  from no_next_link_ends_traversal[OF i disjI1[OF n], of two_page_server "''k''"
      "[PDict [(''id'', PInt 1)]]" "[]"] i n
  show ?thesis by simp
qed

text \<open>
  C8. When the first page has no \<open>data\<close>, or an empty one, and no \<open>next\<close> link,
  \<open>fetch_all_incidents\<close> returns the empty list and has sent the first request only.
\<close>

theorem no_results_one_fetch:
  assumes "fst (http_get_json net [] (page_request key PNone (PInt 1) per_page from_date
             to_date monitor_id heartbeat_id)) = Inr (PDict kvs)"
    and "map_of kvs ''data'' = None \<or> map_of kvs ''data'' = Some (PList [])"
    and "map_of kvs ''pagination'' = None \<or>
       (\<exists>pg. map_of kvs ''pagination'' = Some (PDict pg) \<and>
          (map_of pg ''next'' = None \<or> map_of pg ''next'' = Some PNone \<or>
           map_of pg ''next'' = Some (PStr [])))"
  shows "fetch_all_incidents net key from_date to_date monitor_id heartbeat_id per_page =
           Some (Inr [], [page_request key PNone (PInt 1) per_page from_date to_date
                           monitor_id heartbeat_id])"
proof -
  from assms(2) have i: "page_items (PDict kvs) = Inr []"
    by (auto simp add: page_items_def)
  from next_link_absent_or_empty[OF assms(3)] obtain u
    where "next_link (PDict kvs) = Inr u" and "\<not> truthy u" by blast
  with i have "stops (PDict kvs)" and "items_of (PDict kvs) = []"
    by (simp_all add: stops_def items_of_def)
  with assms(1) show ?thesis
    by (simp add: fetch_all_incidents_from fetch_from_Inr fetch_loop_stop)
qed

theorem no_results_one_fetch_witness:
  "fst (http_get_json empty_server [] (page_request ''k'' PNone (PInt 1) (PInt 2) PNone PNone
          (PInt 42) PNone)) = Inr (PDict []) \<and>
   map_of [] ''data'' = (None :: pyval option) \<and>
   map_of [] ''pagination'' = (None :: pyval option) \<and>
   fetch_all_incidents empty_server ''k'' PNone PNone (PInt 42) PNone (PInt 2) =
     Some (Inr [], [page_request ''k'' PNone (PInt 1) (PInt 2) PNone PNone (PInt 42) PNone])"
proof -
  have f: "fst (http_get_json empty_server [] (page_request ''k'' PNone (PInt 1) (PInt 2) PNone
          PNone (PInt 42) PNone)) = Inr (PDict [])"
    by (simp add: http_get_json_def raise_for_status_def response_json_def empty_server_def)
  have d: "map_of [] ''data'' = (None :: pyval option)" by simp
  have n: "map_of [] ''pagination'' = (None :: pyval option)" by simp
  from no_results_one_fetch[OF f disjI1[OF d] disjI1[OF n]] f d n show ?thesis by blast
qed

text \<open>
  C9. When the \<open>next\<close> link of a page is the base endpoint, the fetch the loop makes
  for it carries \<open>page\<close> = 1 and \<open>per_page\<close> = 50, the defaults of
  \<open>fetch_incidents_page\<close>, and nothing else.
\<close>

theorem base_url_link_gets_default_params:
  assumes "page_items p = Inr items" and "next_link p = Inr (PStr BASE_URL)"
  shows "fetch_loop net key acc p log =
           fetch_from net key (acc @ items)
             \<lparr>req_url = PStr BASE_URL, req_headers = request_headers key,
              req_params = Some [(''page'', PInt 1), (''per_page'', PInt 50)]\<rparr> log"
proof -
  have "truthy (PStr BASE_URL)" by (simp add: BASE_URL_def)
  from fetch_loop_next[OF assms this] show ?thesis by (simp add: next_request_base)
qed

theorem base_url_link_gets_default_params_witness:
  "page_items page_back = Inr [PDict [(''id'', PInt 1)]] \<and>
   next_link page_back = Inr (PStr BASE_URL) \<and>
   fetch_loop base_link_server ''k'' [] page_back [] =
     fetch_from base_link_server ''k'' ([] @ [PDict [(''id'', PInt 1)]])
       \<lparr>req_url = PStr BASE_URL, req_headers = request_headers ''k'',
        req_params = Some [(''page'', PInt 1), (''per_page'', PInt 50)]\<rparr> []"
proof -
  have i: "page_items page_back = Inr [PDict [(''id'', PInt 1)]]"
    by (simp add: page_items_def page_back_def)
  have n: "next_link page_back = Inr (PStr BASE_URL)"
    by (simp add: next_link_def page_back_def)
  from base_url_link_gets_default_params[OF i n] i n show ?thesis by blast
qed

text \<open>
  C10. When the body of a fetch, the first or a later one, is valid JSON but not an object,
  \<open>fetch_all_incidents\<close> ends with \<open>AttributeError\<close>, which is neither
  \<open>HttpError\<close> nor \<open>DecodeError\<close>, returns no incidents and sends no further request.
\<close>

theorem non_object_body_raises:
  assumes "answers net key [] (page_request key PNone (PInt 1) per_page from_date to_date
             monitor_id heartbeat_id) (map Inr ps @ [Inr body])"
    and "\<forall>kvs. body \<noteq> PDict kvs"
  shows "(\<exists>log. fetch_all_incidents net key from_date to_date monitor_id heartbeat_id per_page
               = Some (Inl AttributeError, log) \<and> length log = length ps + 1)
         \<and> AttributeError \<noteq> DecodeError \<and> AttributeError \<noteq> HttpError c"
proof -
  from assms(2) have "page_items body = Inl AttributeError"
    by (cases body) (simp_all add: page_items_def)
  then have "\<And>acc log. fetch_loop net key acc body log = Some (Inl AttributeError, log)"
    by (rule fetch_loop_unreadable)
  with fetch_from_answers[OF assms(1), of "[]"] show ?thesis
    by (auto simp add: fetch_all_incidents_from)
qed

theorem non_object_body_raises_witness:
  "answers array_server ''k'' [] (page_request ''k'' PNone (PInt 1) (PInt 50) PNone PNone
      PNone PNone) (map Inr [] @ [Inr (PList [PDict [(''id'', PInt 1)]])]) \<and>
   (\<forall>kvs. PList [PDict [(''id'', PInt 1)]] \<noteq> PDict kvs) \<and>
   (\<exists>log. fetch_all_incidents array_server ''k'' PNone PNone PNone PNone (PInt 50)
               = Some (Inl AttributeError, log) \<and> length log = 1)"
proof -
  have a: "answers array_server ''k'' [] (page_request ''k'' PNone (PInt 1) (PInt 50) PNone PNone
      PNone PNone) (map Inr [] @ [Inr (PList [PDict [(''id'', PInt 1)]])])"
    by (simp add: http_get_json_def raise_for_status_def response_json_def array_server_def)
  have n: "\<forall>kvs. PList [PDict [(''id'', PInt 1)]] \<noteq> PDict kvs" by simp
  from non_object_body_raises[OF a n] have
    "\<exists>log. fetch_all_incidents array_server ''k'' PNone PNone PNone PNone (PInt 50)
               = Some (Inl AttributeError, log) \<and> length log = 1"
    by simp
  with a n show ?thesis by blast
qed

end
